theory Spec2Isabelle
  imports Main
begin

section \<open>Python values used by \<open>betterforms/changelist.py\<close>\<close>

text \<open>
  Strings are lists of 8-bit characters, Python integers are \<open>int\<close>, Python lists and
  tuples are lists. Every exception the module can raise is a value of \<open>error\<close>; a
  function that can raise returns \<open>error + 'a\<close> with \<open>Inl\<close> for the exception.

  \<open>clean_sorts\<close> raises \<open>ValidationError\<close> at three places (lines 235, 239 and 242). The
  exception carries only the message looked up in \<open>error_messages\<close>; the model also
  records which of the three checks raised it.
\<close>

datatype sort_check = NonNumeric | OutOfRange | Unsortable

datatype error =
    ValidationError sort_check string
  | ImproperlyConfigured
  | AttributeError
  | ValueError
  | IndexError
  | TypeError

subsection \<open>Lists and tuples\<close>

text \<open>\<open>xs[i]\<close>: a negative index counts from the end, anything out of range raises.\<close>

definition getitem :: "'a list \<Rightarrow> int \<Rightarrow> error + 'a" where
  "getitem xs i =
     (if 0 \<le> i \<and> i < int (length xs) then Inr (xs ! nat i)
      else if i < 0 \<and> - int (length xs) \<le> i then Inr (xs ! nat (int (length xs) + i))
      else Inl IndexError)"

text \<open>\<open>xs.index(x)\<close>: the first position holding \<open>x\<close>, \<open>ValueError\<close> when there is none.\<close>

fun index :: "'a list \<Rightarrow> 'a \<Rightarrow> error + nat" where
  "index [] x = Inl ValueError"
| "index (y # ys) x =
     (if y = x then Inr 0
      else (case index ys x of Inl e \<Rightarrow> Inl e | Inr i \<Rightarrow> Inr (Suc i)))"

text \<open>
  \<open>reduce(f, xs)\<close> folds a non-empty list from the left, starting at its head, and
  raises \<open>TypeError\<close> on an empty one.
\<close>

fun reduce :: "('a \<Rightarrow> 'a \<Rightarrow> 'a) \<Rightarrow> 'a list \<Rightarrow> error + 'a" where
  "reduce f [] = Inl TypeError"
| "reduce f (x # xs) = Inr (foldl f x xs)"

subsection \<open>Strings\<close>

text \<open>
  The form hands text to the module, so the string methods are those of text. A
  character is a code point below 256. Among these the decimal digits are \<open>0\<close> to \<open>9\<close>;
  \<open>isdigit\<close> also accepts the superscript digits (code points 178, 179 and 185), which
  \<open>int\<close> does not read; whitespace is the space, the characters 9 to 13 and 28 to 31,
  and the code points 133 and 160.
\<close>

definition is_decimal :: "char \<Rightarrow> bool" where
  "is_decimal c = (48 \<le> (of_char c :: nat) \<and> (of_char c :: nat) \<le> 57)"

definition is_digit :: "char \<Rightarrow> bool" where
  "is_digit c =
     (is_decimal c \<or> (of_char c :: nat) = 178 \<or> (of_char c :: nat) = 179 \<or>
      (of_char c :: nat) = 185)"

definition is_space :: "char \<Rightarrow> bool" where
  "is_space c =
     ((9 \<le> (of_char c :: nat) \<and> (of_char c :: nat) \<le> 13) \<or>
      (28 \<le> (of_char c :: nat) \<and> (of_char c :: nat) \<le> 32) \<or>
      (of_char c :: nat) = 133 \<or> (of_char c :: nat) = 160)"

text \<open>\<open>s.isdigit()\<close>: at least one character, and every character a digit.\<close>

definition isdigit :: "string \<Rightarrow> bool" where
  "isdigit s = (s \<noteq> [] \<and> list_all is_digit s)"

text \<open>A non-empty run of decimal digits, which is what \<open>int\<close> reads after the sign.\<close>

definition isdecimal :: "string \<Rightarrow> bool" where
  "isdecimal s = (s \<noteq> [] \<and> list_all is_decimal s)"

text \<open>\<open>s.strip(chars)\<close> and \<open>s.strip()\<close> remove characters at both ends only.\<close>

definition strip_chars :: "(char \<Rightarrow> bool) \<Rightarrow> string \<Rightarrow> string" where
  "strip_chars p s = rev (dropWhile p (rev (dropWhile p s)))"

definition strip :: "string \<Rightarrow> string" where
  "strip s = strip_chars is_space s"

text \<open>\<open>s.split(sep)\<close> for a one-character separator; \<open>''.split('.')\<close> is \<open>['']\<close>.\<close>

fun split :: "char \<Rightarrow> string \<Rightarrow> string list" where
  "split sep [] = [[]]"
| "split sep (c # cs) =
     (if c = sep then [] # split sep cs
      else (case split sep cs of [] \<Rightarrow> [[c]] | w # ws \<Rightarrow> (c # w) # ws))"

text \<open>\<open>sep.join(xs)\<close>.\<close>

fun join :: "string \<Rightarrow> string list \<Rightarrow> string" where
  "join sep [] = []"
| "join sep [x] = x"
| "join sep (x # y # ys) = x @ sep @ join sep (y # ys)"

text \<open>\<open>str(i)\<close> of an integer: its decimal digits, after a minus sign when negative.\<close>

definition digit_char :: "nat \<Rightarrow> char" where
  "digit_char d = char_of (48 + d)"

fun str_nat :: "nat \<Rightarrow> string" where
  "str_nat n =
     (if n < 10 then [digit_char n] else str_nat (n div 10) @ [digit_char (n mod 10)])"

declare str_nat.simps [simp del]

definition str :: "int \<Rightarrow> string" where
  "str i = (if i < 0 then CHR ''-'' # str_nat (nat (- i)) else str_nat (nat i))"

text \<open>
  \<open>int(s)\<close>: surrounding whitespace is ignored, one sign may precede the decimal
  digits, and anything else raises \<open>ValueError\<close>.
\<close>

definition digits_value :: "string \<Rightarrow> nat" where
  "digits_value ds = foldl (\<lambda>acc c. 10 * acc + ((of_char c :: nat) - 48)) 0 ds"

definition int_of_str :: "string \<Rightarrow> error + int" where
  "int_of_str s =
     (case strip s of
        [] \<Rightarrow> Inl ValueError
      | c # ds \<Rightarrow>
          if c = CHR ''-'' then
            (if isdecimal ds then Inr (- int (digits_value ds)) else Inl ValueError)
          else if c = CHR ''+'' then
            (if isdecimal ds then Inr (int (digits_value ds)) else Inl ValueError)
          else
            (if isdecimal (c # ds) then Inr (int (digits_value (c # ds))) else Inl ValueError))"

section \<open>Querysets and \<open>Q\<close> objects\<close>

text \<open>
  The queryset and \<open>Q\<close> belong to the host framework. The module only builds \<open>Q\<close> objects
  with one keyword argument, combines them with \<open>|\<close>, and calls \<open>filter\<close> and \<open>order_by\<close>
  on a queryset, so both are kept symbolic: a queryset is the base queryset (of any
  type \<open>'q\<close>) with the calls made on it. \<open>holds\<close> reads a \<open>Q\<close> object as a condition on a
  record, given the host's meaning \<open>lookup\<close> of a single keyword test; \<open>|\<close> is
  disjunction.
\<close>

datatype Q = Q string string | Or Q Q

datatype 'q queryset =
    Base 'q
  | Filter "'q queryset" Q
  | Order_by "'q queryset" "string list"

fun holds :: "(string \<Rightarrow> string \<Rightarrow> bool) \<Rightarrow> Q \<Rightarrow> bool" where
  "holds lookup (Q key v) = lookup key v"
| "holds lookup (Or a b) = (holds lookup a \<or> holds lookup b)"

section \<open>\<open>BaseChangeListForm\<close> and \<open>SearchForm\<close>\<close>

record 'q BaseChangeListForm =
  base_queryset :: "'q queryset"

text \<open>
  \<open>BaseChangeListForm.__init__\<close>: \<open>queryset\<close> is the keyword argument (\<open>None\<close> when absent
  or passed as \<open>None\<close>), \<open>model_objects\<close> is \<open>self.model.objects.all()\<close>, \<open>None\<close> when the
  class has no \<open>model\<close> attribute.
\<close>

definition BaseChangeListForm_init ::
  "'q queryset option \<Rightarrow> 'q queryset option \<Rightarrow> error + 'q BaseChangeListForm" where
  "BaseChangeListForm_init queryset model_objects =
     (case queryset of
        Some qs \<Rightarrow> Inr \<lparr>base_queryset = qs\<rparr>
      | None \<Rightarrow>
          (case model_objects of
             None \<Rightarrow> Inl AttributeError
           | Some qs \<Rightarrow> Inr \<lparr>base_queryset = qs\<rparr>))"

record 'q SearchForm = "'q BaseChangeListForm" +
  SEARCH_FIELDS :: "string list"
  CASE_SENSITIVE :: bool
  cleaned_q :: "string option option"

text \<open>
  \<open>SearchForm.__init__\<close>. \<open>search_fields\<close> is the keyword argument: \<open>None\<close> when the key
  is absent, \<open>Some v\<close> when it was passed with value \<open>v\<close> (itself \<open>None\<close> or a list).
  \<open>class_fields\<close> is the class attribute \<open>SEARCH_FIELDS\<close>. The base class is initialised
  first; only then is the field list compared with \<open>None\<close>.

  \<open>cleaned_q\<close> is \<open>None\<close> while the form has no \<open>cleaned_data\<close> attribute, as after
  construction, \<open>Some None\<close> when it has one without the key \<open>q\<close>, and \<open>Some (Some s)\<close>
  when validation stored the text \<open>s\<close> under \<open>q\<close>.
\<close>

definition SearchForm_init ::
  "string list option option \<Rightarrow> string list option \<Rightarrow> bool \<Rightarrow>
   'q queryset option \<Rightarrow> 'q queryset option \<Rightarrow> error + 'q SearchForm" where
  "SearchForm_init search_fields class_fields case_sensitive queryset model_objects =
     (let fs = (case search_fields of None \<Rightarrow> class_fields | Some v \<Rightarrow> v) in
      case BaseChangeListForm_init queryset model_objects of
        Inl e \<Rightarrow> Inl e
      | Inr base \<Rightarrow>
          (case fs of
             None \<Rightarrow> Inl ImproperlyConfigured
           | Some fl \<Rightarrow>
               Inr \<lparr>base_queryset = base_queryset base, SEARCH_FIELDS = fl,
                    CASE_SENSITIVE = case_sensitive, cleaned_q = None\<rparr>))"

text \<open>
  \<open>SearchForm.get_queryset\<close>. Reading \<open>self.cleaned_data\<close> on line 91 raises
  \<open>AttributeError\<close> on a form that has none. \<open>search_args\<close> is the loop that builds
  \<open>args\<close>, one \<open>Q\<close> per field.
\<close>

definition search_args :: "bool \<Rightarrow> string list \<Rightarrow> string \<Rightarrow> Q list" where
  "search_args case_sensitive fs q =
     map (\<lambda>field.
            if case_sensitive then Q (field @ ''__contains'') q
            else Q (field @ ''__icontains'') q)
         fs"

definition SearchForm_get_queryset :: "'q SearchForm \<Rightarrow> error + 'q queryset" where
  "SearchForm_get_queryset form =
     (let qs = base_queryset form in
      case cleaned_q form of
        None \<Rightarrow> Inl AttributeError
      | Some cleaned \<Rightarrow>
          (let q = strip (case cleaned of None \<Rightarrow> [] | Some s \<Rightarrow> s) in
           if q \<noteq> [] then
             (let args = search_args (CASE_SENSITIVE form) (SEARCH_FIELDS form) q in
              if length args > 1 then
                (case reduce Or args of Inl e \<Rightarrow> Inl e | Inr p \<Rightarrow> Inr (Filter qs p))
              else if length args = 1 then
                (case getitem args 0 of Inl e \<Rightarrow> Inl e | Inr p \<Rightarrow> Inr (Filter qs p))
              else Inr qs)
           else Inr qs))"

section \<open>Headers and \<open>SortForm\<close>\<close>

record Header =
  name :: string
  label :: string
  column_name :: string
  is_sortable :: bool

text \<open>
  \<open>Header.__init__\<close>; \<open>pretty_name\<close> is the host framework's function. \<open>x or y\<close> is \<open>y\<close>
  when \<open>x\<close> is \<open>None\<close>, \<open>False\<close> or the empty string.
\<close>

definition Header_init ::
  "(string \<Rightarrow> string) \<Rightarrow> string \<Rightarrow> string option \<Rightarrow> string option \<Rightarrow> bool \<Rightarrow> Header" where
  "Header_init pretty_name nm lbl col sortable =
     \<lparr>name = nm,
      label = (case lbl of None \<Rightarrow> pretty_name nm | Some l \<Rightarrow> if l = [] then pretty_name nm else l),
      column_name = (case col of None \<Rightarrow> nm | Some c \<Rightarrow> if c = [] then nm else c),
      is_sortable = sortable\<rparr>"

text \<open>
  \<open>ThingSet.__init__\<close> stores the headers in a \<open>SortedDict\<close> keyed by name: a new key is
  appended, an existing key keeps its place and takes the new value.
\<close>

fun sorted_dict_set :: "('k \<times> 'v) list \<Rightarrow> 'k \<Rightarrow> 'v \<Rightarrow> ('k \<times> 'v) list" where
  "sorted_dict_set [] k v = [(k, v)]"
| "sorted_dict_set ((k', v') # d) k v =
     (if k' = k then (k, v) # d else (k', v') # sorted_dict_set d k v)"

definition sorted_dict_values :: "('k \<times> 'v) list \<Rightarrow> 'v list" where
  "sorted_dict_values d = map snd d"

definition HeaderSet_init :: "Header list \<Rightarrow> (string \<times> Header) list" where
  "HeaderSet_init hs = foldl (\<lambda>d header. sorted_dict_set d (name header) header) [] hs"

text \<open>
  A \<open>SortForm\<close>. \<open>cleaned_data\<close> is \<open>None\<close> while the form has no \<open>cleaned_data\<close>
  attribute, \<open>Some None\<close> when it has one without the key \<open>sorts\<close> (validation of the
  field failed) and \<open>Some (Some d)\<close> when \<open>clean_sorts\<close> returned \<open>d\<close>.
\<close>

record 'q SortForm = "'q BaseChangeListForm" +
  HEADERS :: "Header list"
  headers :: "(string \<times> Header) list"
  cleaned_data :: "int list option option"
  prefix :: "string option"
  data :: "(string \<times> string) list"

definition error_messages :: "string \<Rightarrow> string" where
  "error_messages key =
     (if key = ''unknown_header'' then ''Invalid sort parameter''
      else if key = ''unsortable_header'' then ''Invalid sort parameter''
      else [])"

definition SortForm_init ::
  "Header list \<Rightarrow> string option \<Rightarrow> (string \<times> string) list \<Rightarrow>
   'q queryset option \<Rightarrow> 'q queryset option \<Rightarrow> error + 'q SortForm" where
  "SortForm_init hs pfx dat queryset model_objects =
     (case BaseChangeListForm_init queryset model_objects of
        Inl e \<Rightarrow> Inl e
      | Inr base \<Rightarrow>
          if \<not> (card (set (map name hs)) = length hs) then Inl AttributeError
          else Inr \<lparr>base_queryset = base_queryset base, HEADERS = hs,
                    headers = HeaderSet_init hs, cleaned_data = None,
                    prefix = pfx, data = dat\<rparr>)"

subsection \<open>\<open>SortForm.clean_sorts\<close>\<close>

text \<open>
  The three checks of \<open>clean_sorts\<close> run in the order of the source. \<open>raw\<close> is
  \<open>cleaned_data.get('sorts', '')\<close>, the text of the request parameter. The list
  comprehension \<open>[int(sort) for sort in sorts]\<close> stops at the first \<open>ValueError\<close>, and
  the generator given to \<open>all\<close> stops at the first header that is not sortable or at the
  first \<open>IndexError\<close>, whichever comes first.
\<close>

fun ints_of :: "string list \<Rightarrow> error + int list" where
  "ints_of [] = Inr []"
| "ints_of (s # ss) =
     (case int_of_str s of
        Inl e \<Rightarrow> Inl e
      | Inr i \<Rightarrow> (case ints_of ss of Inl e \<Rightarrow> Inl e | Inr is \<Rightarrow> Inr (i # is)))"

fun all_sortable :: "Header list \<Rightarrow> int list \<Rightarrow> error + bool" where
  "all_sortable hs [] = Inr True"
| "all_sortable hs (i # is) =
     (case getitem hs (\<bar>i\<bar> - 1) of
        Inl e \<Rightarrow> Inl e
      | Inr h \<Rightarrow> if is_sortable h then all_sortable hs is else Inr False)"

definition clean_sorts :: "'q SortForm \<Rightarrow> string \<Rightarrow> error + int list" where
  "clean_sorts form raw =
     (let sorts = filter (\<lambda>s. s \<noteq> []) (split CHR ''.'' raw) in
      if sorts = [] then Inr []
      else if \<not> list_all (\<lambda>sort. isdigit (strip_chars (\<lambda>c. c = CHR ''-'') sort)) sorts
        then Inl (ValidationError NonNumeric (error_messages ''unknown_header''))
      else
        (case ints_of sorts of
           Inl e \<Rightarrow> Inl e
         | Inr is \<Rightarrow>
             if list_ex (\<lambda>sort. \<bar>sort\<bar> > int (length (HEADERS form))) is
               then Inl (ValidationError OutOfRange (error_messages ''unknown_header''))
             else
               (case all_sortable (HEADERS form) is of
                  Inl e \<Rightarrow> Inl e
                | Inr ok \<Rightarrow>
                    if \<not> ok
                      then Inl (ValidationError Unsortable (error_messages ''unsortable_header''))
                    else Inr is)))"

subsection \<open>\<open>BoundHeader\<close>\<close>

record 'q BoundHeader = Header +
  form :: "'q SortForm"
  sorts :: "int list"
  header :: Header
  param :: string

definition BoundHeader_init :: "'q SortForm \<Rightarrow> Header \<Rightarrow> 'q BoundHeader" where
  "BoundHeader_init f h =
     \<lparr>name = name h, label = label h, column_name = column_name h,
      is_sortable = is_sortable h,
      form = f,
      sorts = (case cleaned_data f of None \<Rightarrow> [] | Some None \<Rightarrow> [] | Some (Some d) \<Rightarrow> d),
      header = h,
      param = strip_chars (\<lambda>c. c = CHR ''-'')
                ((case prefix f of None \<Rightarrow> [] | Some p \<Rightarrow> p) @ ''-sorts'')\<rparr>"

text \<open>
  \<open>_index\<close> and \<open>_sort_index\<close>; \<open>HEADERS.index\<close> raises when the header is not declared.
  Headers are compared by value here and by identity in Python. The two agree for the
  bound headers a form makes, which are built on the declared headers themselves and
  whose names \<open>SortForm.__init__\<close> requires to be distinct; they differ only for a
  bound header built on a copy of a declared header.
\<close>

definition index_of_header :: "'q BoundHeader \<Rightarrow> error + nat" where
  "index_of_header b = index (HEADERS (form b)) (header b)"

definition sort_index :: "'q BoundHeader \<Rightarrow> error + int" where
  "sort_index b = (case index_of_header b of Inl e \<Rightarrow> Inl e | Inr i \<Rightarrow> Inr (int i + 1))"

definition is_active :: "'q BoundHeader \<Rightarrow> error + bool" where
  "is_active b =
     (case sort_index b of Inl e \<Rightarrow> Inl e | Inr k \<Rightarrow> Inr (k \<in> set (map abs (sorts b))))"

definition is_ascending :: "'q BoundHeader \<Rightarrow> error + bool" where
  "is_ascending b =
     (case is_active b of
        Inl e \<Rightarrow> Inl e
      | Inr a \<Rightarrow>
          if a then (case sort_index b of Inl e \<Rightarrow> Inl e | Inr k \<Rightarrow> Inr (k \<in> set (sorts b)))
          else Inr False)"

definition is_descending :: "'q BoundHeader \<Rightarrow> error + bool" where
  "is_descending b =
     (case is_active b of
        Inl e \<Rightarrow> Inl e
      | Inr a \<Rightarrow>
          if a then (case sort_index b of Inl e \<Rightarrow> Inl e | Inr k \<Rightarrow> Inr (k \<notin> set (sorts b)))
          else Inr False)"

definition css_classes :: "'q BoundHeader \<Rightarrow> error + string" where
  "css_classes b =
     (case is_active b of
        Inl e \<Rightarrow> Inl e
      | Inr a \<Rightarrow>
          if a then
            (case sort_index b of
               Inl e \<Rightarrow> Inl e
             | Inr k \<Rightarrow>
                 if k \<in> set (sorts b) then Inr (join '' '' ([] @ [''active''] @ [''ascending'']))
                 else Inr (join '' '' ([] @ [''active''] @ [''descending''])))
          else Inr (join '' '' []))"

definition add_to_sorts :: "'q BoundHeader \<Rightarrow> error + int list" where
  "add_to_sorts b =
     (case sort_index b of
        Inl e \<Rightarrow> Inl e
      | Inr k \<Rightarrow>
          if sorts b \<noteq> [] \<and> \<bar>sorts b ! 0\<bar> = k
            then Inr ([-1 * (sorts b ! 0)] @ drop 1 (sorts b))
          else Inr ([k] @ filter (\<lambda>x. \<bar>x\<bar> \<noteq> k) (sorts b)))"

text \<open>\<open>priority\<close> is \<open>None\<close> (the property returns nothing) when the header is not active.\<close>

definition priority :: "'q BoundHeader \<Rightarrow> error + nat option" where
  "priority b =
     (case is_active b of
        Inl e \<Rightarrow> Inl e
      | Inr a \<Rightarrow>
          if a then
            (case sort_index b of
               Inl e \<Rightarrow> Inl e
             | Inr k \<Rightarrow>
                 (case index (map abs (sorts b)) k of
                    Inl e \<Rightarrow> Inl e
                  | Inr i \<Rightarrow> Inr (Some (i + 1))))
          else Inr None)"

text \<open>
  The three link properties pass one parameter to \<open>construct_querystring\<close>, which copies
  the form's data, overrides that key and hands the result to the standard library's
  \<open>urlencode\<close>. The value of the parameter is the part modelled here: \<open>encode\<close> is the
  expression \<open>'.'.join(map(str, ...))\<close> of lines 198 and 206, \<open>remove_sorts\<close> is the
  \<open>self.add_to_sorts()[1:]\<close> of line 206.
\<close>

definition encode :: "int list \<Rightarrow> string" where
  "encode d = join ''.'' (map str d)"

definition remove_sorts :: "'q BoundHeader \<Rightarrow> error + int list" where
  "remove_sorts b = (case add_to_sorts b of Inl e \<Rightarrow> Inl e | Inr d \<Rightarrow> Inr (drop 1 d))"

definition construct_querystring ::
  "((string \<times> string) list \<Rightarrow> string) \<Rightarrow> (string \<times> string) list \<Rightarrow> string \<Rightarrow> string \<Rightarrow> string" where
  "construct_querystring urlencode dat key v = urlencode (sorted_dict_set dat key v)"

definition querystring ::
  "((string \<times> string) list \<Rightarrow> string) \<Rightarrow> 'q BoundHeader \<Rightarrow> error + string" where
  "querystring urlencode b =
     (case add_to_sorts b of
        Inl e \<Rightarrow> Inl e
      | Inr d \<Rightarrow> Inr (construct_querystring urlencode (data (form b)) (param b) (encode d)))"

definition singular_querystring ::
  "((string \<times> string) list \<Rightarrow> string) \<Rightarrow> 'q BoundHeader \<Rightarrow> error + string" where
  "singular_querystring urlencode b =
     (case sort_index b of
        Inl e \<Rightarrow> Inl e
      | Inr k \<Rightarrow> Inr (construct_querystring urlencode (data (form b)) (param b) (str k)))"

definition remove_querystring ::
  "((string \<times> string) list \<Rightarrow> string) \<Rightarrow> 'q BoundHeader \<Rightarrow> error + string" where
  "remove_querystring urlencode b =
     (case remove_sorts b of
        Inl e \<Rightarrow> Inl e
      | Inr d \<Rightarrow> Inr (construct_querystring urlencode (data (form b)) (param b) (encode d)))"

subsection \<open>\<open>HeaderSet.__getitem__\<close> and \<open>SortForm.get_order_by\<close>\<close>

definition HeaderSet_getitem :: "'q SortForm \<Rightarrow> int \<Rightarrow> error + 'q BoundHeader" where
  "HeaderSet_getitem f key =
     (case getitem (sorted_dict_values (headers f)) key of
        Inl e \<Rightarrow> Inl e
      | Inr h \<Rightarrow> Inr (BoundHeader_init f h))"

text \<open>The loop of \<open>get_order_by\<close>, with \<open>order_by\<close> as the accumulator.\<close>

fun order_by_loop :: "'q SortForm \<Rightarrow> int list \<Rightarrow> string list \<Rightarrow> error + string list" where
  "order_by_loop f [] order_by = Inr order_by"
| "order_by_loop f (s # rest) order_by =
     (case HeaderSet_getitem f (\<bar>s\<bar> - 1) of
        Inl e \<Rightarrow> Inl e
      | Inr b \<Rightarrow>
          (let p = column_name b;
               p' = (if s < 0 then ''-'' @ p else p)
           in order_by_loop f rest (order_by @ [p'])))"

definition get_order_by :: "'q SortForm \<Rightarrow> error + string list" where
  "get_order_by f =
     (case cleaned_data f of
        None \<Rightarrow> Inl AttributeError
      | Some s \<Rightarrow> order_by_loop f (case s of None \<Rightarrow> [] | Some d \<Rightarrow> d) [])"

definition SortForm_get_queryset :: "'q SortForm \<Rightarrow> error + 'q queryset" where
  "SortForm_get_queryset f =
     (let qs = base_queryset f in
      case get_order_by f of
        Inl e \<Rightarrow> Inl e
      | Inr order_by \<Rightarrow> if order_by \<noteq> [] then Inr (Order_by qs order_by) else Inr qs)"

section \<open>The wire format as the specification words it\<close>

text \<open>
  The specification describes a segment of the sort parameter as \<open>-?[0-9]+\<close>: an
  optional single leading minus followed by decimal digits. \<open>signed_decimal\<close> is that
  description, to be compared with what \<open>clean_sorts\<close> accepts; \<open>segments\<close> names the
  non-empty segments of a raw parameter.
\<close>

definition signed_decimal :: "string \<Rightarrow> bool" where
  "signed_decimal s =
     (case s of
        [] \<Rightarrow> False
      | c # ds \<Rightarrow> if c = CHR ''-'' then isdecimal ds else isdecimal (c # ds))"

definition segments :: "string \<Rightarrow> string list" where
  "segments raw = filter (\<lambda>s. s \<noteq> []) (split CHR ''.'' raw)"

section \<open>Concrete inputs\<close>

text \<open>
  Two declared headers, forms over them whose decoded sort descriptor is \<open>d\<close>, and
  validated search forms with fields \<open>fs\<close> and term \<open>q\<close>. The theorems below are
  instantiated at these.
\<close>

definition title_header :: Header where
  "title_header =
     \<lparr>name = ''title'', label = ''Title'', column_name = ''title'', is_sortable = True\<rparr>"

definition date_header :: Header where
  "date_header =
     \<lparr>name = ''date'', label = ''Date'', column_name = ''created'', is_sortable = True\<rparr>"

definition example_form :: "int list \<Rightarrow> unit SortForm" where
  "example_form d =
     \<lparr>base_queryset = Base (), HEADERS = [title_header, date_header],
      headers = HeaderSet_init [title_header, date_header],
      cleaned_data = Some (Some d), prefix = None, data = []\<rparr>"

definition example_search :: "string list \<Rightarrow> string \<Rightarrow> unit SearchForm" where
  "example_search fs q =
     \<lparr>base_queryset = Base (), SEARCH_FIELDS = fs, CASE_SENSITIVE = False,
      cleaned_q = Some (Some q)\<rparr>"

section \<open>The toggle algorithm\<close>

text \<open>A sort index is a position plus one, so it is at least 1.\<close>

lemma sort_index_ge_1: "sort_index b = Inr k \<Longrightarrow> 1 \<le> k"
  by (auto simp: sort_index_def split: sum.splits)

text \<open>The sort indexes and the descriptor of the bound headers of \<open>example_form\<close>.\<close>

lemma example_sort_index_title [simp]:
  "sort_index (BoundHeader_init (example_form d) title_header) = Inr 1"
  by (simp add: sort_index_def index_of_header_def BoundHeader_init_def example_form_def)

lemma example_sort_index_date [simp]:
  "sort_index (BoundHeader_init (example_form d) date_header) = Inr 2"
  by (simp add: sort_index_def index_of_header_def BoundHeader_init_def example_form_def
      title_header_def date_header_def)

lemma example_sorts [simp]: "sorts (BoundHeader_init (example_form d) h) = d"
  by (simp add: BoundHeader_init_def example_form_def)

text \<open>
  C1. Let \<open>k\<close> be the sort index of a bound header and \<open>sorts b\<close> the current
  descriptor. When the descriptor is not empty and the magnitude of its first element
  is \<open>k\<close>, \<open>add_to_sorts\<close> returns the descriptor with the sign of the first element
  flipped and every other element unchanged and in place. Otherwise it returns \<open>k\<close>
  followed by the elements of the descriptor whose magnitude is not \<open>k\<close>, in their
  order.
\<close>

theorem add_to_sorts_toggle:
  assumes "sort_index b = Inr k"
  shows "(sorts b \<noteq> [] \<and> \<bar>hd (sorts b)\<bar> = k \<longrightarrow>
            add_to_sorts b = Inr ((sorts b)[0 := - hd (sorts b)])) \<and>
         (\<not> (sorts b \<noteq> [] \<and> \<bar>hd (sorts b)\<bar> = k) \<longrightarrow>
            add_to_sorts b = Inr (k # filter (\<lambda>x. \<bar>x\<bar> \<noteq> k) (sorts b)))"
  using assms by (cases "sorts b") (simp_all add: add_to_sorts_def)

text \<open>Clicking the primary column of \<open>[2, -1]\<close> and clicking the other one.\<close>

theorem add_to_sorts_toggle_witness:
  "add_to_sorts (BoundHeader_init (example_form [2, -1]) date_header) = Inr [-2, -1] \<and>
   add_to_sorts (BoundHeader_init (example_form [2, -1]) title_header) = Inr [1, 2]"
proof -
  have "add_to_sorts (BoundHeader_init (example_form [2, -1]) date_header) = Inr [-2, -1]"
    using add_to_sorts_toggle [OF example_sort_index_date, of "[2, -1]"] by simp
  moreover have "add_to_sorts (BoundHeader_init (example_form [2, -1]) title_header) = Inr [1, 2]"
    using add_to_sorts_toggle [OF example_sort_index_title, of "[2, -1]"] by simp
  ultimately show ?thesis by simp
qed

text \<open>
  C9 as stated fails on a descriptor that names the clicked column twice, which
  \<open>clean_sorts\<close> accepts: for \<open>[1, -1]\<close> and column 1 the remove link keeps \<open>-1\<close>, while
  deleting every element of magnitude 1 leaves nothing.
\<close>

theorem remove_sorts_counterexample:
  "sort_index (BoundHeader_init (example_form [1, -1]) title_header) = Inr 1 \<and>
   remove_sorts (BoundHeader_init (example_form [1, -1]) title_header) = Inr [-1] \<and>
   filter (\<lambda>x. \<bar>x\<bar> \<noteq> 1) [1, -1 :: int] = []"
  by (simp add: remove_sorts_def add_to_sorts_def)

text \<open>
  C9, amended. \<open>remove_sorts\<close> (the toggle result without its first element) is the
  descriptor without its first element when that element has magnitude \<open>k\<close>, and the
  descriptor with every element of magnitude \<open>k\<close> deleted otherwise. It equals the
  descriptor with every element of magnitude \<open>k\<close> deleted, the others in their order,
  whenever no element after a first element of magnitude \<open>k\<close> has magnitude \<open>k\<close>
  too; in particular for every descriptor with pairwise distinct magnitudes.
\<close>

theorem remove_sorts_deletes:
  assumes "sort_index b = Inr k"
  shows "remove_sorts b =
           Inr (if sorts b \<noteq> [] \<and> \<bar>hd (sorts b)\<bar> = k then tl (sorts b)
                else filter (\<lambda>x. \<bar>x\<bar> \<noteq> k) (sorts b)) \<and>
         ((sorts b \<noteq> [] \<and> \<bar>hd (sorts b)\<bar> = k \<longrightarrow> k \<notin> set (map abs (tl (sorts b)))) \<longrightarrow>
            remove_sorts b = Inr (filter (\<lambda>x. \<bar>x\<bar> \<noteq> k) (sorts b))) \<and>
         (distinct (map abs (sorts b)) \<longrightarrow>
            remove_sorts b = Inr (filter (\<lambda>x. \<bar>x\<bar> \<noteq> k) (sorts b)))"
proof -
  have general: "remove_sorts b =
           Inr (if sorts b \<noteq> [] \<and> \<bar>hd (sorts b)\<bar> = k then tl (sorts b)
                else filter (\<lambda>x. \<bar>x\<bar> \<noteq> k) (sorts b))"
    using assms by (cases "sorts b") (simp_all add: remove_sorts_def add_to_sorts_def drop_Suc)
  have keep: "filter (\<lambda>x. \<bar>x\<bar> \<noteq> k) xs = xs" if "k \<notin> set (map abs xs)" for xs
    using that by (induction xs) auto
  have weak: "remove_sorts b = Inr (filter (\<lambda>x. \<bar>x\<bar> \<noteq> k) (sorts b))"
    if "sorts b \<noteq> [] \<and> \<bar>hd (sorts b)\<bar> = k \<longrightarrow> k \<notin> set (map abs (tl (sorts b)))"
  proof (cases "sorts b \<noteq> [] \<and> \<bar>hd (sorts b)\<bar> = k")
    case True
    then obtain s rest where sr: "sorts b = s # rest" "\<bar>s\<bar> = k"
      by (cases "sorts b") auto
    with that have "k \<notin> set (map abs rest)" by simp
    then show ?thesis using general sr by (simp add: keep)
  next
    case False
    with general show ?thesis by auto
  qed
  have "remove_sorts b = Inr (filter (\<lambda>x. \<bar>x\<bar> \<noteq> k) (sorts b))"
    if "distinct (map abs (sorts b))"
  proof (rule weak, intro impI)
    assume "sorts b \<noteq> [] \<and> \<bar>hd (sorts b)\<bar> = k"
    then obtain s rest where sr: "sorts b = s # rest" "\<bar>s\<bar> = k"
      by (cases "sorts b") auto
    with that show "k \<notin> set (map abs (tl (sorts b)))" by auto
  qed
  with general weak show ?thesis by blast
qed

text \<open>Removing either column from \<open>[2, -1]\<close>.\<close>

theorem remove_sorts_deletes_witness:
  "remove_sorts (BoundHeader_init (example_form [2, -1]) title_header) = Inr [2] \<and>
   remove_sorts (BoundHeader_init (example_form [2, -1]) date_header) = Inr [-1] \<and>
   distinct (map abs [2, -1 :: int])"
proof -
  have "remove_sorts (BoundHeader_init (example_form [2, -1]) title_header) = Inr [2]"
    using remove_sorts_deletes [OF example_sort_index_title, of "[2, -1]"] by simp
  moreover have "remove_sorts (BoundHeader_init (example_form [2, -1]) date_header) = Inr [-1]"
    using remove_sorts_deletes [OF example_sort_index_date, of "[2, -1]"] by simp
  ultimately show ?thesis by simp
qed

text \<open>
  C10. On a descriptor with pairwise distinct magnitudes, \<open>add_to_sorts\<close> returns a
  non-empty descriptor whose first element has magnitude \<open>k\<close> and whose magnitudes are
  again pairwise distinct.
\<close>

theorem add_to_sorts_distinct:
  assumes "sort_index b = Inr k" and "distinct (map abs (sorts b))"
  shows "\<exists>d. add_to_sorts b = Inr d \<and> d \<noteq> [] \<and> \<bar>hd d\<bar> = k \<and> distinct (map abs d)"
proof (cases "sorts b \<noteq> [] \<and> \<bar>sorts b ! 0\<bar> = k")
  case True
  then obtain s rest where sr: "sorts b = s # rest" "\<bar>s\<bar> = k"
    by (cases "sorts b") auto
  then have "add_to_sorts b = Inr ((- s) # rest)"
    using assms(1) by (simp add: add_to_sorts_def)
  moreover have "distinct (map abs ((- s) # rest))"
    using assms(2) sr by simp
  ultimately show ?thesis using sr by simp
next
  case False
  then have "add_to_sorts b = Inr (k # filter (\<lambda>x. \<bar>x\<bar> \<noteq> k) (sorts b))"
    using assms(1) by (auto simp add: add_to_sorts_def)
  moreover have "1 \<le> k" using assms(1) by (rule sort_index_ge_1)
  moreover have "distinct (map abs (filter (\<lambda>x. \<bar>x\<bar> \<noteq> k) (sorts b)))"
    using assms(2) by (simp add: distinct_map_filter)
  moreover have "k \<notin> set (map abs (filter (\<lambda>x. \<bar>x\<bar> \<noteq> k) (sorts b)))"
    by auto
  ultimately show ?thesis by simp
qed

text \<open>Promoting column 1 in \<open>[2, -1]\<close>.\<close>

theorem add_to_sorts_distinct_witness:
  "distinct (map abs [2, -1 :: int]) \<and>
   add_to_sorts (BoundHeader_init (example_form [2, -1]) title_header) = Inr [1, 2] \<and>
   distinct (map abs [1, 2 :: int])"
proof -
  have d: "distinct (map abs (sorts (BoundHeader_init (example_form [2, -1]) title_header)))"
    by simp
  from add_to_sorts_distinct [OF example_sort_index_title d]
  obtain r where "add_to_sorts (BoundHeader_init (example_form [2, -1]) title_header) = Inr r"
    by blast
  moreover have "add_to_sorts (BoundHeader_init (example_form [2, -1]) title_header) = Inr [1, 2]"
    by (simp add: add_to_sorts_def)
  ultimately show ?thesis by auto
qed

section \<open>The sort codec\<close>

subsection \<open>Decimal text of an integer\<close>

lemma is_decimal_digit_char: "d < 10 \<Longrightarrow> is_decimal (digit_char d)"
  by (simp add: is_decimal_def digit_char_def)

lemma decimal_is_digit: "is_decimal c \<Longrightarrow> is_digit c"
  by (simp add: is_digit_def)

lemma decimals_are_digits: "list_all is_decimal ds \<Longrightarrow> list_all is_digit ds"
  by (auto simp: list_all_iff decimal_is_digit)

lemma isdecimal_isdigit: "isdecimal s \<Longrightarrow> isdigit s"
  by (auto simp: isdecimal_def isdigit_def list_all_iff decimal_is_digit)

lemma value_digit_char: "d < 10 \<Longrightarrow> (of_char (digit_char d) :: nat) - 48 = d"
  by (simp add: digit_char_def)

lemma str_nat_digits: "list_all is_decimal (str_nat n)"
proof (induction n rule: str_nat.induct)
  case (1 n)
  show ?case
  proof (cases "n < 10")
    case True
    then show ?thesis by (simp add: str_nat.simps [of n] is_decimal_digit_char)
  next
    case False
    with 1 show ?thesis by (simp add: str_nat.simps [of n] is_decimal_digit_char)
  qed
qed

lemma str_nat_not_empty: "str_nat n \<noteq> []"
  by (simp add: str_nat.simps [of n])

lemma isdecimal_str_nat: "isdecimal (str_nat n)"
  by (simp add: isdecimal_def str_nat_digits str_nat_not_empty)

lemma isdigit_str_nat: "isdigit (str_nat n)"
  by (rule isdecimal_isdigit) (rule isdecimal_str_nat)

lemma digits_value_snoc:
  "digits_value (ds @ [c]) = 10 * digits_value ds + ((of_char c :: nat) - 48)"
  by (simp add: digits_value_def)

lemma digits_value_str_nat: "digits_value (str_nat n) = n"
proof (induction n rule: str_nat.induct)
  case (1 n)
  show ?case
  proof (cases "n < 10")
    case True
    then show ?thesis
      by (simp add: str_nat.simps [of n] digits_value_def value_digit_char)
  next
    case False
    with 1 have "digits_value (str_nat (n div 10)) = n div 10" by simp
    with False show ?thesis
      by (simp add: str_nat.simps [of n] digits_value_snoc value_digit_char)
  qed
qed

subsection \<open>Stripping, splitting and joining\<close>

lemma strip_chars_none: "\<forall>c \<in> set s. \<not> p c \<Longrightarrow> strip_chars p s = s"
proof -
  assume a: "\<forall>c \<in> set s. \<not> p c"
  have "dropWhile p xs = xs" if "\<forall>c \<in> set xs. \<not> p c" for xs
    using that by (cases xs) auto
  from this [of s] this [of "rev s"] a show ?thesis
    by (simp add: strip_chars_def)
qed

lemma digit_not_space: "is_digit c \<Longrightarrow> \<not> is_space c"
  by (auto simp: is_digit_def is_decimal_def is_space_def)

lemma digit_not_minus: "is_digit c \<Longrightarrow> c \<noteq> CHR ''-''"
  by (auto simp: is_digit_def is_decimal_def)

lemma digit_not_plus: "is_digit c \<Longrightarrow> c \<noteq> CHR ''+''"
  by (auto simp: is_digit_def is_decimal_def)

lemma digit_not_dot: "is_digit c \<Longrightarrow> c \<noteq> CHR ''.''"
  by (auto simp: is_digit_def is_decimal_def)

text \<open>\<open>str\<close> writes a minus sign and digits only, and \<open>int\<close> reads it back.\<close>

lemma str_chars: "c \<in> set (str i) \<Longrightarrow> c = CHR ''-'' \<or> is_decimal c"
  using str_nat_digits [of "nat i"] str_nat_digits [of "nat (- i)"]
  by (auto simp: str_def list_all_iff split: if_splits)

lemma str_not_empty: "str i \<noteq> []"
  by (simp add: str_def str_nat_not_empty)

lemma str_no_dot: "CHR ''.'' \<notin> set (str i)"
  using str_chars [of "CHR ''.''" i] by (auto simp: is_decimal_def)

lemma strip_str: "strip (str i) = str i"
  unfolding strip_def
proof (rule strip_chars_none, rule ballI)
  fix c assume "c \<in> set (str i)"
  then have "c = CHR ''-'' \<or> is_decimal c" by (rule str_chars)
  then show "\<not> is_space c" by (auto simp: is_space_def is_decimal_def)
qed

lemma int_of_str_str: "int_of_str (str i) = Inr i"
proof (cases "i < 0")
  case True
  then show ?thesis
    unfolding int_of_str_def strip_str
    by (simp add: str_def isdecimal_str_nat digits_value_str_nat)
next
  case False
  obtain c ds where cds: "str_nat (nat i) = c # ds"
    using str_nat_not_empty [of "nat i"] by (cases "str_nat (nat i)") auto
  have "is_decimal c" using str_nat_digits [of "nat i"] cds by simp
  then have "c \<noteq> CHR ''-''" "c \<noteq> CHR ''+''"
    by (auto dest: decimal_is_digit digit_not_minus digit_not_plus)
  moreover have "isdecimal (c # ds)" "digits_value (c # ds) = nat i"
    using isdecimal_str_nat [of "nat i"] digits_value_str_nat [of "nat i"] cds by simp_all
  moreover have "str i = c # ds" using False cds by (simp add: str_def)
  ultimately show ?thesis
    using False unfolding int_of_str_def strip_str by simp
qed

lemma strip_minus_digits:
  "list_all is_digit ds \<Longrightarrow> strip_chars (\<lambda>c. c = CHR ''-'') ds = ds"
  by (rule strip_chars_none) (auto simp: list_all_iff dest: digit_not_minus)

lemma strip_minus_str: "strip_chars (\<lambda>c. c = CHR ''-'') (str i) = str_nat (nat \<bar>i\<bar>)"
proof (cases "i < 0")
  case True
  have "strip_chars (\<lambda>c. c = CHR ''-'') (CHR ''-'' # ds) = strip_chars (\<lambda>c. c = CHR ''-'') ds" for ds
    by (simp add: strip_chars_def)
  with True show ?thesis
    by (simp add: str_def strip_minus_digits decimals_are_digits str_nat_digits)
next
  case False
  then show ?thesis by (simp add: str_def strip_minus_digits decimals_are_digits str_nat_digits)
qed

lemma split_no_sep: "sep \<notin> set x \<Longrightarrow> split sep x = [x]"
  by (induction x) auto

lemma split_append_sep: "sep \<notin> set x \<Longrightarrow> split sep (x @ sep # rest) = x # split sep rest"
  by (induction x) auto

lemma split_join:
  "xs \<noteq> [] \<Longrightarrow> \<forall>x \<in> set xs. sep \<notin> set x \<Longrightarrow> split sep (join [sep] xs) = xs"
proof (induction "[sep]" xs rule: join.induct)
  case 1
  then show ?case by simp
next
  case (2 x)
  then show ?case by (simp add: split_no_sep)
next
  case (3 x y ys)
  then show ?case by (simp add: split_append_sep)
qed

subsection \<open>Encoding, then decoding\<close>

lemma ints_of_map_str: "ints_of (map str d) = Inr d"
  by (induction d) (simp_all add: int_of_str_str)

lemma getitem_in_range:
  "s \<noteq> 0 \<Longrightarrow> \<bar>s\<bar> \<le> int (length hs) \<Longrightarrow> getitem hs (\<bar>s\<bar> - 1) = Inr (hs ! (nat \<bar>s\<bar> - 1))"
  by (simp add: getitem_def nat_diff_distrib)

lemma all_sortable_valid:
  "\<forall>s \<in> set d. s \<noteq> 0 \<and> \<bar>s\<bar> \<le> int (length hs) \<and> is_sortable (hs ! (nat \<bar>s\<bar> - 1))
   \<Longrightarrow> all_sortable hs d = Inr True"
  by (induction d) (simp_all add: getitem_in_range)

text \<open>
  C2. Let \<open>d\<close> be a list of signed integers, none of them zero, each of magnitude at
  most the number of declared headers and each naming a sortable header. Then
  \<open>clean_sorts\<close> on \<open>encode d\<close> (the decimal forms joined by a dot) succeeds and returns
  \<open>d\<close>. Distinct magnitudes are not needed for this.
\<close>

theorem clean_sorts_encode:
  assumes "\<forall>s \<in> set d. s \<noteq> 0 \<and> \<bar>s\<bar> \<le> int (length (HEADERS f)) \<and>
                         is_sortable (HEADERS f ! (nat \<bar>s\<bar> - 1))"
  shows "clean_sorts f (encode d) = Inr d"
proof (cases "d = []")
  case True
  then show ?thesis by (simp add: clean_sorts_def encode_def)
next
  case False
  have "split CHR ''.'' (encode d) = map str d"
    unfolding encode_def using False by (intro split_join) (auto simp: str_no_dot)
  then have segs: "filter (\<lambda>s. s \<noteq> []) (split CHR ''.'' (encode d)) = map str d"
    by (simp add: filter_id_conv str_not_empty)
  have numeric: "list_all (\<lambda>s. isdigit (strip_chars (\<lambda>c. c = CHR ''-'') s)) (map str d)"
    by (simp add: list_all_iff strip_minus_str isdigit_str_nat)
  have in_range: "\<not> list_ex (\<lambda>s. \<bar>s\<bar> > int (length (HEADERS f))) d"
    using assms by (auto simp: list_ex_iff)
  have "all_sortable (HEADERS f) d = Inr True"
    using assms by (rule all_sortable_valid)
  with False numeric in_range show ?thesis
    unfolding clean_sorts_def segs by (simp add: ints_of_map_str Let_def)
qed

text \<open>The descriptor \<open>[2, -1]\<close> over the two example headers.\<close>

theorem clean_sorts_encode_witness:
  "encode [2, -1] = ''2.-1'' \<and> clean_sorts (example_form []) ''2.-1'' = Inr [2, -1]"
proof -
  have e: "encode [2, -1] = ''2.-1''"
    by code_simp
  have "\<forall>s \<in> set [2, -1 :: int]. s \<noteq> 0 \<and> \<bar>s\<bar> \<le> int (length (HEADERS (example_form []))) \<and>
          is_sortable (HEADERS (example_form []) ! (nat \<bar>s\<bar> - 1))"
    by (simp add: example_form_def title_header_def date_header_def)
  from clean_sorts_encode [OF this] e show ?thesis by simp
qed

subsection \<open>Decoding a raw parameter\<close>

text \<open>A signed decimal passes the check of line 234 and is read by \<open>int\<close>.\<close>

lemma signed_decimal_numeric:
  assumes "signed_decimal s"
  shows "isdigit (strip_chars (\<lambda>c. c = CHR ''-'') s)"
proof -
  from assms obtain c ds where s: "s = c # ds" by (cases s) (auto simp: signed_decimal_def)
  have strip_cons: "strip_chars (\<lambda>c. c = CHR ''-'') (CHR ''-'' # t) = strip_chars (\<lambda>c. c = CHR ''-'') t" for t
    by (simp add: strip_chars_def)
  show ?thesis
  proof (cases "c = CHR ''-''")
    case True
    with assms s have "isdecimal ds" by (simp add: signed_decimal_def)
    then have "isdigit ds" by (rule isdecimal_isdigit)
    with True s show ?thesis by (simp add: strip_cons strip_minus_digits isdigit_def)
  next
    case False
    with assms s have "isdecimal s" by (simp add: signed_decimal_def)
    then have "isdigit s" by (rule isdecimal_isdigit)
    then show ?thesis by (simp add: strip_minus_digits isdigit_def)
  qed
qed

lemma strip_digits: "list_all is_digit ds \<Longrightarrow> strip ds = ds"
  unfolding strip_def by (rule strip_chars_none) (auto simp: list_all_iff dest: digit_not_space)

lemma signed_decimal_parses:
  assumes "signed_decimal s"
  shows "\<exists>i. int_of_str s = Inr i"
proof -
  from assms obtain c ds where s: "s = c # ds" by (cases s) (auto simp: signed_decimal_def)
  show ?thesis
  proof (cases "c = CHR ''-''")
    case True
    with assms s have d: "isdecimal ds" by (simp add: signed_decimal_def)
    have "\<not> is_space CHR ''-''" by (simp add: is_space_def)
    with d have "strip s = s"
      unfolding strip_def s True
      by (intro strip_chars_none)
        (auto simp: isdecimal_def list_all_iff dest: decimal_is_digit digit_not_space)
    with d s True show ?thesis by (simp add: int_of_str_def)
  next
    case False
    with assms s have d: "isdecimal s" by (simp add: signed_decimal_def)
    then have "strip s = s"
      by (simp add: strip_digits decimals_are_digits isdecimal_def)
    moreover from d s have "c \<noteq> CHR ''+''"
      by (auto simp: isdecimal_def dest: decimal_is_digit digit_not_plus)
    ultimately show ?thesis using d s False by (simp add: int_of_str_def)
  qed
qed

lemma ints_of_signed_decimal:
  "list_all signed_decimal ss \<Longrightarrow> \<exists>is. ints_of ss = Inr is \<and> length is = length ss"
proof (induction ss)
  case Nil
  then show ?case by simp
next
  case (Cons s ss)
  then obtain i "is" where "int_of_str s = Inr i" "ints_of ss = Inr is" "length is = length ss"
    using signed_decimal_parses [of s] by auto
  then show ?case by simp
qed

lemma all_sortable_error: "all_sortable hs is = Inl e \<Longrightarrow> e = IndexError"
  by (induction "is") (auto simp: getitem_def split: sum.splits if_splits)

text \<open>What the range check of the code decides, on a parameter of well-formed segments.\<close>

lemma clean_sorts_out_of_range:
  assumes "list_all signed_decimal (segments raw)" and "ints_of (segments raw) = Inr is"
  shows "clean_sorts f raw = Inl (ValidationError OutOfRange ''Invalid sort parameter'')
         \<longleftrightarrow> (\<exists>v \<in> set is. \<bar>v\<bar> > int (length (HEADERS f)))"
proof (cases "segments raw = []")
  case True
  with assms show ?thesis by (auto simp: clean_sorts_def segments_def)
next
  case False
  have numeric: "list_all (\<lambda>s. isdigit (strip_chars (\<lambda>c. c = CHR ''-'') s)) (segments raw)"
    using assms(1) by (auto simp: list_all_iff signed_decimal_numeric)
  show ?thesis
    using False numeric assms(2)
    unfolding clean_sorts_def segments_def [symmetric]
    by (auto simp: Let_def list_ex_iff error_messages_def split: sum.splits
        dest: all_sortable_error)
qed

text \<open>A segment that fails the check of line 234 gives the validation error.\<close>

lemma clean_sorts_non_numeric:
  assumes "s \<in> set (segments raw)" and "\<not> isdigit (strip_chars (\<lambda>c. c = CHR ''-'') s)"
  shows "clean_sorts f raw = Inl (ValidationError NonNumeric ''Invalid sort parameter'')"
proof -
  from assms have "\<not> list_all (\<lambda>s. isdigit (strip_chars (\<lambda>c. c = CHR ''-'') s)) (segments raw)"
    by (auto simp: list_all_iff)
  moreover from assms(1) have "segments raw \<noteq> []" by auto
  ultimately show ?thesis
    unfolding clean_sorts_def segments_def [symmetric]
    by (simp add: Let_def error_messages_def)
qed

text \<open>
  C3. The claim has decoding fail with the out-of-range validation error exactly when
  a parsed segment is zero or exceeds the number of headers. The check of line 238
  compares the magnitude with the number of headers only (\<open>clean_sorts_out_of_range\<close>),
  so zero passes it; line 241 then reads \<open>HEADERS[-1]\<close>, the last header. With two
  sortable headers the parameter \<open>0\<close> is accepted and decoded to \<open>[0]\<close>.
\<close>

theorem clean_sorts_zero:
  "segments ''0'' = [''0''] \<and> signed_decimal ''0'' \<and> int_of_str ''0'' = Inr 0 \<and>
   length (HEADERS (example_form [])) = 2 \<and>
   clean_sorts (example_form []) ''0'' = Inr [0]"
  by code_simp

text \<open>With the descriptor \<open>[0]\<close> the order resolver sorts by the last header.\<close>

lemma get_order_by_zero: "get_order_by (example_form [0]) = Inr [''created'']"
  by code_simp

text \<open>
  C4. The claim has every segment that is not a signed decimal rejected with the
  validation error and nothing else. The check of line 234 strips minus signs from
  both ends before testing for digits, so \<open>--1\<close> passes it, and \<open>int\<close> raises
  \<open>ValueError\<close> on line 236, which is not a validation error.
\<close>

theorem clean_sorts_double_minus:
  "segments ''--1'' = [''--1''] \<and> \<not> signed_decimal ''--1'' \<and>
   clean_sorts (example_form []) ''--1'' = Inl ValueError"
  by code_simp

text \<open>The same happens with a minus sign at the end.\<close>

lemma clean_sorts_trailing_minus:
  "clean_sorts (example_form []) ''1-'' = Inl ValueError"
  by code_simp

text \<open>
  So it does with a superscript two (code point 178), which \<open>isdigit\<close> accepts on
  line 234 and \<open>int\<close> does not read.
\<close>

lemma clean_sorts_superscript:
  "clean_sorts (example_form []) [CHR 0xB2] = Inl ValueError"
  by code_simp

lemma strip_chars_set: "set s \<subseteq> {c. p c} \<union> set (strip_chars p s)"
proof -
  define t where "t = dropWhile p s"
  have "set s = set (takeWhile p s) \<union> set t"
    unfolding t_def by (metis set_append takeWhile_dropWhile_id)
  moreover have "set (takeWhile p s) \<subseteq> {c. p c}"
    by (auto dest: set_takeWhileD)
  moreover have "set t = set (takeWhile p (rev t)) \<union> set (dropWhile p (rev t))"
    by (metis set_append set_rev takeWhile_dropWhile_id)
  moreover have "set (takeWhile p (rev t)) \<subseteq> {c. p c}"
    by (auto dest: set_takeWhileD)
  moreover have "set (strip_chars p s) = set (dropWhile p (rev t))"
    by (simp add: strip_chars_def t_def)
  ultimately show ?thesis by blast
qed

lemma numeric_not_signed_decimal:
  assumes "isdigit (strip_chars (\<lambda>c. c = CHR ''-'') s)" and "\<not> signed_decimal s"
  shows "int_of_str s = Inl ValueError"
proof -
  have chars: "c = CHR ''-'' \<or> is_digit c" if "c \<in> set s" for c
    using that assms(1) strip_chars_set [of s "\<lambda>c. c = CHR ''-''"]
    by (auto simp: isdigit_def list_all_iff)
  have "\<not> is_space c" if "c \<in> set s" for c
    using chars [OF that] by (auto simp: is_space_def dest: digit_not_space)
  then have strip: "strip s = s"
    unfolding strip_def by (intro strip_chars_none) blast
  show ?thesis
  proof (cases s)
    case Nil
    with strip show ?thesis by (simp add: int_of_str_def)
  next
    case (Cons c ds)
    show ?thesis
    proof (cases "c = CHR ''-''")
      case True
      with assms(2) Cons have "\<not> isdecimal ds" by (simp add: signed_decimal_def)
      with True Cons strip show ?thesis by (simp add: int_of_str_def)
    next
      case False
      with assms(2) Cons have "\<not> isdecimal (c # ds)" by (simp add: signed_decimal_def)
      moreover have "c \<noteq> CHR ''+''"
        using chars [of c] Cons False by (auto dest: digit_not_plus)
      ultimately show ?thesis using False Cons strip by (simp add: int_of_str_def)
    qed
  qed
qed

lemma int_of_str_error: "int_of_str s = Inl e \<Longrightarrow> e = ValueError"
  by (auto simp: int_of_str_def split: list.splits if_splits)

lemma ints_of_value_error:
  "s \<in> set ss \<Longrightarrow> int_of_str s = Inl ValueError \<Longrightarrow> ints_of ss = Inl ValueError"
  by (induction ss) (auto split: sum.splits dest: int_of_str_error)

text \<open>
  A segment that passes the check of line 234 without being a signed decimal (minus
  signs at the end, or more than one in front) reaches \<open>int\<close>, and the \<open>ValueError\<close>
  leaves \<open>clean_sorts\<close>.
\<close>

lemma clean_sorts_value_error:
  assumes "list_all (\<lambda>s. isdigit (strip_chars (\<lambda>c. c = CHR ''-'') s)) (segments raw)"
    and "s \<in> set (segments raw)" and "\<not> signed_decimal s"
  shows "clean_sorts f raw = Inl ValueError"
proof -
  from assms have "int_of_str s = Inl ValueError"
    by (auto simp: list_all_iff intro: numeric_not_signed_decimal)
  with assms(2) have "ints_of (segments raw) = Inl ValueError"
    by (rule ints_of_value_error)
  moreover from assms(2) have "segments raw \<noteq> []" by auto
  ultimately show ?thesis
    using assms(1) unfolding clean_sorts_def segments_def [symmetric]
    by (simp add: Let_def)
qed

section \<open>Bound headers\<close>

text \<open>
  \<open>index\<close> compares headers by value where Python compares objects by identity. Two
  declared headers with equal fields would have equal names, which \<open>SortForm.__init__\<close>
  refuses, so under distinct names both find the same position.
\<close>

lemma index_nth_distinct:
  "distinct (map key xs) \<Longrightarrow> i < length xs \<Longrightarrow> index xs (xs ! i) = Inr i"
proof (induction xs arbitrary: i)
  case Nil
  then show ?case by simp
next
  case (Cons x xs)
  show ?case
  proof (cases i)
    case 0
    then show ?thesis by simp
  next
    case (Suc j)
    with Cons.prems have j: "j < length xs" by simp
    then have "key (xs ! j) \<in> set (map key xs)" by simp
    with Cons.prems have "x \<noteq> xs ! j" by auto
    moreover have "index xs (xs ! j) = Inr j"
      using Cons.prems j by (intro Cons.IH) auto
    ultimately show ?thesis using Suc by simp
  qed
qed

lemma index_first:
  "x \<in> set xs \<Longrightarrow>
   \<exists>p. index xs x = Inr p \<and> p < length xs \<and> xs ! p = x \<and> (\<forall>j<p. xs ! j \<noteq> x)"
proof (induction xs)
  case Nil
  then show ?case by simp
next
  case (Cons y ys)
  show ?case
  proof (cases "y = x")
    case True
    then show ?thesis by simp
  next
    case False
    with Cons obtain p where p: "index ys x = Inr p" "p < length ys" "ys ! p = x"
      "\<forall>j<p. ys ! j \<noteq> x" by auto
    have "\<forall>j<Suc p. (y # ys) ! j \<noteq> x"
    proof (intro allI impI)
      fix j assume "j < Suc p"
      with p(4) False show "(y # ys) ! j \<noteq> x" by (cases j) auto
    qed
    with p False show ?thesis by simp
  qed
qed

lemma sort_index_declared:
  assumes "distinct (map name (HEADERS f))" and "i < length (HEADERS f)"
  shows "sort_index (BoundHeader_init f (HEADERS f ! i)) = Inr (int i + 1)"
proof -
  have "index (HEADERS f) (HEADERS f ! i) = Inr i"
    using assms by (rule index_nth_distinct)
  then show ?thesis
    by (simp add: sort_index_def index_of_header_def BoundHeader_init_def)
qed

text \<open>
  C6. Let \<open>b\<close> be the bound header of the header at position \<open>i\<close> of a form whose
  header names are distinct, and \<open>k = i + 1\<close> its sort index. Then \<open>is_active\<close> holds
  iff \<open>k\<close> is among the magnitudes of the descriptor; \<open>is_ascending\<close> holds iff it is
  active and \<open>k\<close> itself occurs; \<open>is_descending\<close> holds iff it is active and not
  ascending; \<open>priority\<close> is absent when not active and otherwise the 1-based position
  of the first element of magnitude \<open>k\<close>; \<open>css_classes\<close> is \<open>active ascending\<close> or
  \<open>active descending\<close> when active and empty otherwise.
\<close>

theorem bound_header_state:
  assumes "distinct (map name (HEADERS f))" and "i < length (HEADERS f)"
  defines "b \<equiv> BoundHeader_init f (HEADERS f ! i)"
  defines "k \<equiv> int i + 1"
  shows "sort_index b = Inr k \<and>
         is_active b = Inr (k \<in> abs ` set (sorts b)) \<and>
         is_ascending b = Inr (k \<in> abs ` set (sorts b) \<and> k \<in> set (sorts b)) \<and>
         is_descending b =
           Inr (k \<in> abs ` set (sorts b) \<and> \<not> (k \<in> abs ` set (sorts b) \<and> k \<in> set (sorts b))) \<and>
         (k \<notin> abs ` set (sorts b) \<longrightarrow> priority b = Inr None) \<and>
         (k \<in> abs ` set (sorts b) \<longrightarrow>
            (\<exists>p. priority b = Inr (Some (p + 1)) \<and> p < length (sorts b) \<and>
                 \<bar>sorts b ! p\<bar> = k \<and> (\<forall>j<p. \<bar>sorts b ! j\<bar> \<noteq> k))) \<and>
         css_classes b =
           Inr (if k \<in> abs ` set (sorts b)
                then (if k \<in> set (sorts b) then ''active ascending'' else ''active descending'')
                else [])"
proof -
  have si: "sort_index b = Inr k"
    unfolding b_def k_def using assms(1,2) by (rule sort_index_declared)
  have act: "is_active b = Inr (k \<in> abs ` set (sorts b))"
    by (simp add: is_active_def si)
  have asc: "is_ascending b = Inr (k \<in> abs ` set (sorts b) \<and> k \<in> set (sorts b))"
    by (simp add: is_ascending_def act si)
  have desc: "is_descending b =
      Inr (k \<in> abs ` set (sorts b) \<and> \<not> (k \<in> abs ` set (sorts b) \<and> k \<in> set (sorts b)))"
    by (simp add: is_descending_def act si)
  have inactive: "priority b = Inr None" if "k \<notin> abs ` set (sorts b)"
    using that by (simp add: priority_def act)
  have active: "\<exists>p. priority b = Inr (Some (p + 1)) \<and> p < length (sorts b) \<and>
                 \<bar>sorts b ! p\<bar> = k \<and> (\<forall>j<p. \<bar>sorts b ! j\<bar> \<noteq> k)"
    if a: "k \<in> abs ` set (sorts b)"
  proof -
    from a have "k \<in> set (map abs (sorts b))" by simp
    from index_first [OF this] obtain p where p: "index (map abs (sorts b)) k = Inr p"
      "p < length (map abs (sorts b))" "map abs (sorts b) ! p = k"
      "\<forall>j<p. map abs (sorts b) ! j \<noteq> k" by blast
    have "priority b = Inr (Some (p + 1))"
      using a p(1) by (simp add: priority_def act si)
    moreover have "p < length (sorts b)" using p(2) by simp
    moreover have "\<bar>sorts b ! p\<bar> = k" using p(2,3) by simp
    moreover have "\<forall>j<p. \<bar>sorts b ! j\<bar> \<noteq> k"
    proof (intro allI impI)
      fix j assume "j < p"
      with p(2,4) show "\<bar>sorts b ! j\<bar> \<noteq> k" by (auto dest!: spec [of _ j])
    qed
    ultimately show ?thesis by blast
  qed
  have css: "css_classes b =
      Inr (if k \<in> abs ` set (sorts b)
           then (if k \<in> set (sorts b) then ''active ascending'' else ''active descending'')
           else [])"
    by (simp add: css_classes_def act si)
  from si act asc desc inactive active css show ?thesis by blast
qed

text \<open>The first header under the descriptor \<open>[2, -1]\<close>: active, descending, second.\<close>

theorem bound_header_state_witness:
  "is_active (BoundHeader_init (example_form [2, -1]) title_header) = Inr True \<and>
   is_ascending (BoundHeader_init (example_form [2, -1]) title_header) = Inr False \<and>
   is_descending (BoundHeader_init (example_form [2, -1]) title_header) = Inr True \<and>
   css_classes (BoundHeader_init (example_form [2, -1]) title_header) = Inr ''active descending'' \<and>
   priority (BoundHeader_init (example_form [2, -1]) title_header) = Inr (Some 2)"
proof -
  have d: "distinct (map name (HEADERS (example_form [2, -1])))"
    by (simp add: example_form_def title_header_def date_header_def)
  have l: "0 < length (HEADERS (example_form [2, -1]))"
    by (simp add: example_form_def)
  have h: "HEADERS (example_form [2, -1]) ! 0 = title_header"
    by (simp add: example_form_def)
  have p: "priority (BoundHeader_init (example_form [2, -1]) title_header) = Inr (Some 2)"
    by (simp add: priority_def is_active_def)
  from bound_header_state [OF d l] p show ?thesis
    unfolding h by simp
qed

section \<open>The order resolver\<close>

text \<open>With distinct names the header set lists the declared headers in their order.\<close>

lemma sorted_dict_set_new: "k \<notin> fst ` set d \<Longrightarrow> sorted_dict_set d k v = d @ [(k, v)]"
  by (induction d) auto

lemma HeaderSet_fold:
  "distinct (map fst d @ map name hs) \<Longrightarrow>
   foldl (\<lambda>d header. sorted_dict_set d (name header) header) d hs
     = d @ map (\<lambda>h. (name h, h)) hs"
proof (induction hs arbitrary: d)
  case Nil
  then show ?case by simp
next
  case (Cons h hs)
  from Cons.prems have new: "name h \<notin> fst ` set d" by auto
  from Cons.prems have "distinct (map fst (d @ [(name h, h)]) @ map name hs)" by auto
  from Cons.IH [OF this] new show ?case by (simp add: sorted_dict_set_new)
qed

lemma HeaderSet_values:
  "distinct (map name hs) \<Longrightarrow> sorted_dict_values (HeaderSet_init hs) = hs"
  using HeaderSet_fold [of "[]" hs]
  by (simp add: HeaderSet_init_def sorted_dict_values_def comp_def)

text \<open>What \<open>SortForm.__init__\<close> establishes when it returns.\<close>

lemma SortForm_init_ok:
  assumes "SortForm_init hs pfx dat queryset model_objects = Inr f"
  shows "HEADERS f = hs \<and> distinct (map name hs) \<and> headers f = HeaderSet_init hs \<and>
         cleaned_data f = None"
proof -
  from assms have "card (set (map name hs)) = length hs"
    by (auto simp: SortForm_init_def split: sum.splits if_splits)
  then have "distinct (map name hs)"
    by (metis card_distinct length_map)
  with assms show ?thesis
    by (auto simp: SortForm_init_def split: sum.splits if_splits)
qed

lemma example_form_constructed:
  "SortForm_init [title_header, date_header] None [] (Some (Base ())) None
     = Inr ((example_form d)\<lparr>cleaned_data := None\<rparr>)"
  by (simp add: SortForm_init_def BaseChangeListForm_init_def example_form_def
      title_header_def date_header_def)

lemma HeaderSet_getitem_valid:
  assumes "distinct (map name (HEADERS f))" and "headers f = HeaderSet_init (HEADERS f)"
    and "s \<noteq> 0" and "\<bar>s\<bar> \<le> int (length (HEADERS f))"
  shows "HeaderSet_getitem f (\<bar>s\<bar> - 1) = Inr (BoundHeader_init f (HEADERS f ! (nat \<bar>s\<bar> - 1)))"
proof -
  have "sorted_dict_values (headers f) = HEADERS f"
    using assms(1,2) by (simp add: HeaderSet_values)
  moreover have "getitem (HEADERS f) (\<bar>s\<bar> - 1) = Inr (HEADERS f ! (nat \<bar>s\<bar> - 1))"
    using assms(3,4) by (simp add: getitem_def nat_diff_distrib)
  ultimately show ?thesis by (simp add: HeaderSet_getitem_def)
qed

lemma order_by_loop_valid:
  assumes "distinct (map name (HEADERS f))" and "headers f = HeaderSet_init (HEADERS f)"
  shows "\<forall>s \<in> set d. s \<noteq> 0 \<and> \<bar>s\<bar> \<le> int (length (HEADERS f)) \<Longrightarrow>
         order_by_loop f d acc =
           Inr (acc @ map (\<lambda>s. (if s < 0 then ''-'' else []) @
                                column_name (HEADERS f ! (nat \<bar>s\<bar> - 1))) d)"
proof (induction d arbitrary: acc)
  case Nil
  then show ?case by simp
next
  case (Cons s d)
  then have "HeaderSet_getitem f (\<bar>s\<bar> - 1) = Inr (BoundHeader_init f (HEADERS f ! (nat \<bar>s\<bar> - 1)))"
    using assms by (intro HeaderSet_getitem_valid) auto
  moreover have "column_name (BoundHeader_init f h) = column_name h" for h
    by (simp add: BoundHeader_init_def)
  ultimately show ?case using Cons by (simp add: Let_def)
qed

text \<open>
  C5. On a form whose headers have distinct names and whose decoded descriptor \<open>d\<close>
  has only non-zero elements of magnitude at most the number of headers,
  \<open>get_order_by\<close> returns one entry per element of \<open>d\<close>, in the order of \<open>d\<close>: for the
  element \<open>s\<close> the \<open>column_name\<close> of the header at position \<open>abs(s) - 1\<close>, as it is when
  \<open>s\<close> is positive and after a minus sign when \<open>s\<close> is negative. An empty descriptor
  gives an empty list.
\<close>

theorem get_order_by_valid:
  assumes "distinct (map name (HEADERS f))" and "headers f = HeaderSet_init (HEADERS f)"
    and "cleaned_data f = Some (Some d)"
    and "\<forall>s \<in> set d. s \<noteq> 0 \<and> \<bar>s\<bar> \<le> int (length (HEADERS f))"
  shows "get_order_by f =
           Inr (map (\<lambda>s. (if s < 0 then ''-'' else []) @
                          column_name (HEADERS f ! (nat \<bar>s\<bar> - 1))) d) \<and>
         (d = [] \<longrightarrow> get_order_by f = Inr [])"
  using order_by_loop_valid [OF assms(1,2,4), of "[]"] assms(3)
  by (simp add: get_order_by_def)

text \<open>The descriptor \<open>[2, -1]\<close>: the second column ascending, then the first descending.\<close>

theorem get_order_by_valid_witness:
  "get_order_by (example_form [2, -1]) = Inr [''created'', ''-title'']"
proof -
  have 1: "distinct (map name (HEADERS (example_form [2, -1])))"
    by (simp add: example_form_def title_header_def date_header_def)
  have 2: "headers (example_form [2, -1]) = HeaderSet_init (HEADERS (example_form [2, -1]))"
    by (simp add: example_form_def)
  have 3: "cleaned_data (example_form [2, -1]) = Some (Some [2, -1])"
    by (simp add: example_form_def)
  have 4: "\<forall>s \<in> set [2, -1 :: int]. s \<noteq> 0 \<and> \<bar>s\<bar> \<le> int (length (HEADERS (example_form [2, -1])))"
    by (simp add: example_form_def)
  from get_order_by_valid [OF 1 2 3 4] show ?thesis
    by (simp add: example_form_def title_header_def date_header_def)
qed

section \<open>The search form\<close>

lemma holds_foldl_Or:
  "holds lookup (foldl Or a ps) \<longleftrightarrow> holds lookup a \<or> (\<exists>p \<in> set ps. holds lookup p)"
  by (induction ps arbitrary: a) auto

lemma search_args_tests:
  "search_args cs fs q =
     map (\<lambda>field. Q (field @ (if cs then ''__contains'' else ''__icontains'')) q) fs"
  by (simp add: search_args_def)

text \<open>A form that was never validated has no cleaned data, and the search raises.\<close>

lemma search_unvalidated:
  "cleaned_q frm = None \<Longrightarrow> SearchForm_get_queryset frm = Inl AttributeError"
  by (simp add: SearchForm_get_queryset_def)

text \<open>On a validated form with an empty field list the search applies no filter.\<close>

lemma search_no_fields:
  "SEARCH_FIELDS frm = [] \<Longrightarrow> cleaned_q frm = Some c \<Longrightarrow>
   SearchForm_get_queryset frm = Inr (base_queryset frm)"
  by (simp add: SearchForm_get_queryset_def search_args_def Let_def)

text \<open>
  C7. Take a validated form (one that has cleaned data, so that there is a search
  term) with at least one search field. When the term is empty after stripping, the
  base queryset is returned unchanged. Otherwise one filter is applied to it, whose
  \<open>Q\<close> object holds iff the test of some declared field holds, the test of a field
  being \<open>field__contains\<close> on the stripped term when the form is case sensitive and
  \<open>field__icontains\<close> otherwise; with exactly one field the \<open>Q\<close> object is that field's
  test itself.
\<close>

theorem search_filter:
  assumes declared: "SEARCH_FIELDS frm \<noteq> []" and validated: "cleaned_q frm = Some cleaned"
  defines "q \<equiv> strip (case cleaned of None \<Rightarrow> [] | Some s \<Rightarrow> s)"
  defines "test \<equiv> (\<lambda>field. Q (field @ (if CASE_SENSITIVE frm then ''__contains''
                                          else ''__icontains'')) q)"
  shows "(q = [] \<longrightarrow> SearchForm_get_queryset frm = Inr (base_queryset frm)) \<and>
         (q \<noteq> [] \<longrightarrow>
            (\<exists>p. SearchForm_get_queryset frm = Inr (Filter (base_queryset frm) p) \<and>
                 (\<forall>lookup. holds lookup p \<longleftrightarrow>
                    (\<exists>field \<in> set (SEARCH_FIELDS frm). holds lookup (test field))) \<and>
                 (\<forall>field. SEARCH_FIELDS frm = [field] \<longrightarrow> p = test field)))"
proof (intro conjI impI)
  assume "q = []"
  then show "SearchForm_get_queryset frm = Inr (base_queryset frm)"
    by (simp add: SearchForm_get_queryset_def validated q_def)
next
  assume ne: "q \<noteq> []"
  from declared obtain f rest where fs: "SEARCH_FIELDS frm = f # rest"
    by (cases "SEARCH_FIELDS frm") auto
  have args: "search_args (CASE_SENSITIVE frm) (SEARCH_FIELDS frm) q = test f # map test rest"
    by (simp add: search_args_tests fs test_def)
  have body: "SearchForm_get_queryset frm =
      (if length (test f # map test rest) > 1 then
         (case reduce Or (test f # map test rest) of
            Inl e \<Rightarrow> Inl e
          | Inr p \<Rightarrow> Inr (Filter (base_queryset frm) p))
       else if length (test f # map test rest) = 1 then
         (case getitem (test f # map test rest) 0 of
            Inl e \<Rightarrow> Inl e
          | Inr p \<Rightarrow> Inr (Filter (base_queryset frm) p))
       else Inr (base_queryset frm))"
    using ne unfolding SearchForm_get_queryset_def validated Let_def
    by (simp add: q_def [symmetric] args)
  show "\<exists>p. SearchForm_get_queryset frm = Inr (Filter (base_queryset frm) p) \<and>
            (\<forall>lookup. holds lookup p \<longleftrightarrow>
               (\<exists>field \<in> set (SEARCH_FIELDS frm). holds lookup (test field))) \<and>
            (\<forall>field. SEARCH_FIELDS frm = [field] \<longrightarrow> p = test field)"
  proof (cases rest)
    case Nil
    have "SearchForm_get_queryset frm = Inr (Filter (base_queryset frm) (test f))"
      unfolding body by (simp add: Nil getitem_def)
    then show ?thesis using fs Nil by simp
  next
    case (Cons g more)
    have "SearchForm_get_queryset frm =
            Inr (Filter (base_queryset frm) (foldl Or (test f) (map test rest)))"
      unfolding body by (simp add: Cons)
    moreover have "holds lookup (foldl Or (test f) (map test rest)) \<longleftrightarrow>
            (\<exists>field \<in> set (SEARCH_FIELDS frm). holds lookup (test field))" for lookup
      by (simp add: holds_foldl_Or fs)
    ultimately show ?thesis using fs Cons by simp
  qed
qed

text \<open>
  Two fields, one field, a blank term, and a term that is blank only as text: the
  code points 31 and 160 are whitespace.
\<close>

theorem search_filter_witness:
  "SearchForm_get_queryset (example_search [''name'', ''email''] '' abc '')
     = Inr (Filter (Base ()) (Or (Q ''name__icontains'' ''abc'') (Q ''email__icontains'' ''abc''))) \<and>
   SearchForm_get_queryset (example_search [''name''] ''abc'')
     = Inr (Filter (Base ()) (Q ''name__icontains'' ''abc'')) \<and>
   SearchForm_get_queryset (example_search [''name'', ''email''] ''  '') = Inr (Base ()) \<and>
   SearchForm_get_queryset (example_search [''name''] [CHR 0x1F, CHR 0xA0]) = Inr (Base ())"
proof -
  have ne: "SEARCH_FIELDS (example_search [''name'', ''email''] t) \<noteq> []" for t
    by (simp add: example_search_def)
  have ne1: "SEARCH_FIELDS (example_search [''name''] t) \<noteq> []" for t
    by (simp add: example_search_def)
  have v: "cleaned_q (example_search fs t) = Some (Some t)" for fs t
    by (simp add: example_search_def)
  have blank: "strip ''  '' = []" "strip [CHR 0x1F, CHR 0xA0] = []"
    by (simp_all add: strip_def strip_chars_def is_space_def)
  have "SearchForm_get_queryset (example_search [''name'', ''email''] ''  '') = Inr (Base ())"
    using search_filter [OF ne v] blank by (simp add: example_search_def)
  moreover have "SearchForm_get_queryset (example_search [''name''] [CHR 0x1F, CHR 0xA0])
      = Inr (Base ())"
    using search_filter [OF ne1 v] blank by (simp add: example_search_def)
  moreover have "SearchForm_get_queryset (example_search [''name'', ''email''] '' abc '')
     = Inr (Filter (Base ()) (Or (Q ''name__icontains'' ''abc'') (Q ''email__icontains'' ''abc'')))"
    by code_simp
  moreover have "SearchForm_get_queryset (example_search [''name''] ''abc'')
     = Inr (Filter (Base ()) (Q ''name__icontains'' ''abc''))"
    by code_simp
  ultimately show ?thesis by simp
qed

text \<open>
  C8 as stated fails for a field list that is empty: line 78 compares with \<open>None\<close>
  only, so the form is constructed.
\<close>

theorem SearchForm_init_empty_accepted:
  "SearchForm_init (Some (Some [])) None False (Some (Base ())) None
     = Inr \<lparr>base_queryset = Base (), SEARCH_FIELDS = [], CASE_SENSITIVE = False,
            cleaned_q = None\<rparr>"
  by (simp add: SearchForm_init_def BaseChangeListForm_init_def)

text \<open>
  C8, amended. The field list is unset when it is \<open>None\<close>: passed as \<open>None\<close>, or not
  passed while the class attribute is \<open>None\<close>. Construction with an unset field list
  fails with \<open>ImproperlyConfigured\<close> when a queryset or a model is there. Without
  queryset and model, construction fails with the base class's \<open>AttributeError\<close>,
  whatever the field list. With a field list that is set, also an empty one, and a
  queryset or a model, construction succeeds and the form holds that field list.
\<close>

theorem SearchForm_init_unset:
  fixes search_fields :: "string list option option"
    and class_fields :: "string list option"
    and cs :: bool
    and queryset model_objects :: "'q queryset option"
  defines "given \<equiv> (case search_fields of None \<Rightarrow> class_fields | Some v \<Rightarrow> v)"
  defines "constructed \<equiv> SearchForm_init search_fields class_fields cs queryset model_objects"
  shows "(given = None \<and> (queryset \<noteq> None \<or> model_objects \<noteq> None) \<longrightarrow>
            constructed = Inl ImproperlyConfigured) \<and>
         (queryset = None \<and> model_objects = None \<longrightarrow> constructed = Inl AttributeError) \<and>
         (\<forall>fs. given = Some fs \<and> (queryset \<noteq> None \<or> model_objects \<noteq> None) \<longrightarrow>
            (\<exists>frm. constructed = Inr frm \<and> SEARCH_FIELDS frm = fs))"
  unfolding given_def constructed_def
  by (auto simp: SearchForm_init_def BaseChangeListForm_init_def Let_def
      split: option.splits sum.splits)

text \<open>No field list anywhere, with a queryset and without.\<close>

theorem SearchForm_init_unset_witness:
  "SearchForm_init None None False (Some (Base ())) None
     = (Inl ImproperlyConfigured :: error + unit SearchForm) \<and>
   SearchForm_init None None False None None
     = (Inl AttributeError :: error + unit SearchForm)"
  using SearchForm_init_unset [of None None "Some (Base ())" None False]
    SearchForm_init_unset [of None None "None :: unit queryset option" None False]
  by simp

end
